theory Spec2Isabelle
  imports Complex_Main "HOL-Library.Sublist"
begin

section \<open>Values\<close>

text \<open>
  A decoded JSON document, as \<^verbatim>\<open>json.load\<close> hands it to the program: \<^verbatim>\<open>None\<close>,
  \<^verbatim>\<open>bool\<close>, \<^verbatim>\<open>int\<close>, \<^verbatim>\<open>str\<close>, \<^verbatim>\<open>list\<close> and \<^verbatim>\<open>dict\<close>. A dict is an association list
  in insertion order with distinct keys; floating-point numbers are left out. Strings are
  lists of 8-bit characters: the model covers ASCII text, and \<^verbatim>\<open>quote_plus\<close> takes any
  other byte for one byte of a UTF-8 encoding.
\<close>

datatype json =
    JNull
  | JBool bool
  | JInt int
  | JStr string
  | JArr "json list"
  | JObj "(string \<times> json) list"

text \<open>
  The exceptions that leave the modelled functions. \<^verbatim>\<open>sys.exit(1)\<close> raises
  \<^verbatim>\<open>SystemExit(1)\<close>, which nothing in the program catches: the process ends with
  that status. \<^verbatim>\<open>Authorization\<close> is the program's own \<^verbatim>\<open>SpotifyAPI._Authorization\<close>.
\<close>

datatype exc =
    SystemExit int
  | KeyError string
  | TypeError
  | AttributeError
  | Authorization string

text \<open>Python truthiness, as used by \<^verbatim>\<open>while response['next']\<close>.\<close>

fun truthy :: "json \<Rightarrow> bool" where
  "truthy JNull = False"
| "truthy (JBool b) = b"
| "truthy (JInt n) = (n \<noteq> 0)"
| "truthy (JStr s) = (s \<noteq> [])"
| "truthy (JArr xs) = (xs \<noteq> [])"
| "truthy (JObj kvs) = (kvs \<noteq> [])"

text \<open>\<^verbatim>\<open>obj[key]\<close> with a string key: only a dict that has the key answers.\<close>

fun subscript :: "json \<Rightarrow> string \<Rightarrow> exc + json" where
  "subscript (JObj kvs) k =
     (case map_of kvs k of None \<Rightarrow> Inl (KeyError k) | Some v \<Rightarrow> Inr v)"
| "subscript _ k = Inl TypeError"

text \<open>\<^verbatim>\<open>len(obj)\<close>.\<close>

fun py_len :: "json \<Rightarrow> exc + nat" where
  "py_len (JArr xs) = Inr (length xs)"
| "py_len (JStr s) = Inr (length s)"
| "py_len (JObj kvs) = Inr (length kvs)"
| "py_len _ = Inl TypeError"

text \<open>
  \<^verbatim>\<open>a += b\<close>: a list is extended by the elements of any iterable (the characters of a
  string, the keys of a dict), strings are concatenated, \<^verbatim>\<open>int\<close> and \<^verbatim>\<open>bool\<close> are added
  as integers, and everything else is a \<^verbatim>\<open>TypeError\<close>.
\<close>

fun as_int :: "json \<Rightarrow> int option" where
  "as_int (JInt n) = Some n"
| "as_int (JBool b) = Some (if b then 1 else 0)"
| "as_int _ = None"

fun iadd :: "json \<Rightarrow> json \<Rightarrow> exc + json" where
  "iadd (JArr xs) (JArr ys) = Inr (JArr (xs @ ys))"
| "iadd (JArr xs) (JStr s) = Inr (JArr (xs @ map (\<lambda>c. JStr [c]) s))"
| "iadd (JArr xs) (JObj kvs) = Inr (JArr (xs @ map (\<lambda>kv. JStr (fst kv)) kvs))"
| "iadd (JArr xs) _ = Inl TypeError"
| "iadd (JStr s) (JStr t) = Inr (JStr (s @ t))"
| "iadd a b =
     (case (as_int a, as_int b) of
        (Some m, Some n) \<Rightarrow> Inr (JInt (m + n))
      | _ \<Rightarrow> Inl TypeError)"

section \<open>URL encoding\<close>

text \<open>
  \<^verbatim>\<open>urllib.parse.quote_plus\<close> and \<^verbatim>\<open>urllib.parse.urlencode\<close> of the standard library:
  letters, digits and \<^verbatim>\<open>_.-~\<close> stay, a space becomes \<^verbatim>\<open>+\<close>, every other byte becomes
  \<^verbatim>\<open>%XX\<close> in upper-case hexadecimal; the pairs are joined as \<^verbatim>\<open>k=v\<close> with \<^verbatim>\<open>&\<close>, in the
  order of the dict.
\<close>

definition always_safe :: "char set" where
  "always_safe =
     set ''ABCDEFGHIJKLMNOPQRSTUVWXYZabcdefghijklmnopqrstuvwxyz0123456789_.-~''"

definition hex_digit :: "nat \<Rightarrow> char" where
  "hex_digit n = ''0123456789ABCDEF'' ! (n mod 16)"

definition quote_char :: "char \<Rightarrow> string" where
  "quote_char c =
     (if c = CHR '' '' then ''+''
      else if c \<in> always_safe then [c]
      else [CHR ''%'', hex_digit (of_char c div 16), hex_digit (of_char c mod 16)])"

definition quote_plus :: "string \<Rightarrow> string" where
  "quote_plus s = concat (map quote_char s)"

text \<open>\<^verbatim>\<open>sep.join(xs)\<close>.\<close>

fun join :: "string \<Rightarrow> string list \<Rightarrow> string" where
  "join sep [] = []"
| "join sep [x] = x"
| "join sep (x # y # ys) = x @ sep @ join sep (y # ys)"

text \<open>\<^verbatim>\<open>str(n)\<close> for an integer.\<close>

fun str_nat :: "nat \<Rightarrow> string" where
  "str_nat n =
     (if n < 10 then [''0123456789'' ! n]
      else str_nat (n div 10) @ [''0123456789'' ! (n mod 10)])"

declare str_nat.simps [simp del]

definition str_int :: "int \<Rightarrow> string" where
  "str_int i = (if i < 0 then CHR ''-'' # str_nat (nat (- i)) else str_nat (nat i))"

text \<open>
  The value of a query parameter: the program passes strings and, for \<^verbatim>\<open>limit\<close>, an
  integer; \<^verbatim>\<open>urlencode\<close> applies \<^verbatim>\<open>str\<close> to it.
\<close>

datatype pval = PStr string | PInt int

fun str_pval :: "pval \<Rightarrow> string" where
  "str_pval (PStr s) = s"
| "str_pval (PInt i) = str_int i"

type_synonym params = "(string \<times> pval) list"

definition urlencode :: "params \<Rightarrow> string" where
  "urlencode query =
     join ''&'' (map (\<lambda>kv. quote_plus (fst kv) @ ''='' @ quote_plus (str_pval (snd kv))) query)"

section \<open>The world around the program\<close>

text \<open>
  The parameter dicts live in a store, so that a function that wrote to one would be
  seen: \<^verbatim>\<open>get\<close>, \<^verbatim>\<open>list\<close> and \<^verbatim>\<open>post\<close> each own one shared default dict, made once
  when the method is defined. Decoded responses are fresh objects that only the running
  call refers to; they are plain values.
\<close>

type_synonym addr = nat

definition get_params_default :: addr where "get_params_default = 0"
definition list_params_default :: addr where "list_params_default = 1"
definition post_params_default :: addr where "post_params_default = 2"

text \<open>
  What \<^verbatim>\<open>urllib.request.Request\<close> is built from: the URL, the headers in the order
  of \<^verbatim>\<open>add_header\<close>, and the value whose \<^verbatim>\<open>json.dumps\<close> encoding is the body.
\<close>

record request =
  req_url :: string
  req_headers :: "(string \<times> string) list"
  req_data :: "json option"

text \<open>
  One attempt inside the \<^verbatim>\<open>try\<close>: either some exception (its text is logged), or
  \<^verbatim>\<open>urlopen\<close> answers and \<^verbatim>\<open>json.load\<close> decodes the body.
\<close>

datatype outcome = Fails string | Replies json

datatype logmsg =
    CouldntLoadURL string string
  | TryingAgain
  | Loaded nat json
  | LoggingIn string
  | ReceivedAccessToken string

datatype response = Page string | SendError nat

record world =
  store :: "addr \<Rightarrow> params"
  sent :: "request list"
  infos :: "logmsg list"
  slept :: nat
  ticks :: nat
  opened :: "string list"
  replied :: "response list"

text \<open>
  The transport answers a request knowing the requests made before it; the clock gives
  the value of the n-th call of \<^verbatim>\<open>time.time()\<close>.
\<close>

record env =
  transport :: "request list \<Rightarrow> request \<Rightarrow> outcome"
  clock :: "nat \<Rightarrow> rat"

record spotify_api =
  auth :: string

section \<open>SpotifyAPI.get and SpotifyAPI.post\<close>

definition api_base :: string where
  "api_base = ''https://api.spotify.com/v1/''"

text \<open>The first lines of \<^verbatim>\<open>get\<close> and of \<^verbatim>\<open>post\<close>: construct the correct URL.\<close>

definition construct_url :: "string \<Rightarrow> params \<Rightarrow> string" where
  "construct_url url ps =
     (let url1 = (if \<not> prefix api_base url then api_base @ url else url)
      in if ps \<noteq> []
         then url1 @ (if CHR ''?'' \<in> set url1 then ''&'' else ''?'') @ urlencode ps
         else url1)"

text \<open>
  \<^verbatim>\<open>for _ in range(tries)\<close> around the \<^verbatim>\<open>try\<close>: a reply returns at once, a failure is
  logged, sleeps two seconds and goes round again; after the loop, \<^verbatim>\<open>sys.exit(1)\<close>.
\<close>

primrec attempts :: "env \<Rightarrow> request \<Rightarrow> nat \<Rightarrow> world \<Rightarrow> (exc + json) \<times> world" where
  "attempts e req 0 w = (Inl (SystemExit 1), w)"
| "attempts e req (Suc n) w =
     (case transport e (sent w) req of
        Replies j \<Rightarrow> (Inr j, w\<lparr>sent := sent w @ [req]\<rparr>)
      | Fails err \<Rightarrow>
          attempts e req n
            (w\<lparr>sent := sent w @ [req],
               infos := infos w @ [CouldntLoadURL (req_url req) err, TryingAgain],
               slept := slept w + 2\<rparr>))"

definition get_request :: "spotify_api \<Rightarrow> string \<Rightarrow> request" where
  "get_request self url =
     \<lparr>req_url = url,
      req_headers = [(''Authorization'', ''Bearer '' @ auth self)],
      req_data = None\<rparr>"

definition post_request :: "spotify_api \<Rightarrow> string \<Rightarrow> json option \<Rightarrow> request" where
  "post_request self url data =
     \<lparr>req_url = url,
      req_headers = [(''Authorization'', ''Bearer '' @ auth self),
                     (''Content-Type'', ''application/json'')],
      req_data = data\<rparr>"

text \<open>\<^verbatim>\<open>range(tries)\<close> is empty for a count that is not positive.\<close>

definition get :: "env \<Rightarrow> spotify_api \<Rightarrow> string \<Rightarrow> addr \<Rightarrow> int \<Rightarrow> world \<Rightarrow> (exc + json) \<times> world" where
  "get e self url ps tries w =
     attempts e (get_request self (construct_url url (store w ps))) (nat tries) w"

definition post :: "env \<Rightarrow> spotify_api \<Rightarrow> string \<Rightarrow> addr \<Rightarrow> json option \<Rightarrow> int \<Rightarrow> world
    \<Rightarrow> (exc + json) \<times> world" where
  "post e self url ps data tries w =
     attempts e (post_request self (construct_url url (store w ps)) data) (nat tries) w"

section \<open>SpotifyAPI.list\<close>

text \<open>
  The progress report at the head of the loop body: it reads the clock once, and when
  more than fifteen seconds have passed it reads it again and logs
  \<^verbatim>\<open>len(items)\<close> and \<^verbatim>\<open>response['total']\<close>.
\<close>

definition report_progress :: "env \<Rightarrow> json \<Rightarrow> json \<Rightarrow> rat \<Rightarrow> world \<Rightarrow> (exc + rat) \<times> world" where
  "report_progress e response items last_log_time w =
     (let w1 = w\<lparr>ticks := Suc (ticks w)\<rparr>
      in if clock e (ticks w) > last_log_time + 15
         then (let w2 = w1\<lparr>ticks := Suc (ticks w1)\<rparr>
               in case py_len items of
                    Inl x \<Rightarrow> (Inl x, w2)
                  | Inr n \<Rightarrow>
                      (case subscript response ''total'' of
                         Inl x \<Rightarrow> (Inl x, w2)
                       | Inr tot \<Rightarrow>
                           (Inr (clock e (ticks w1)), w2\<lparr>infos := infos w2 @ [Loaded n tot]\<rparr>)))
         else (Inr last_log_time, w1))"

text \<open>
  The rest of the body: \<^verbatim>\<open>response = self.get(response['next'])\<close>, where a value
  that is not a string has no \<^verbatim>\<open>startswith\<close>, and \<^verbatim>\<open>items += response['items']\<close>.
\<close>

definition next_page :: "env \<Rightarrow> spotify_api \<Rightarrow> json \<Rightarrow> json \<Rightarrow> world \<Rightarrow> (exc + json \<times> json) \<times> world" where
  "next_page e self nxt items w =
     (case nxt of
        JStr url \<Rightarrow>
          (case get e self url get_params_default 3 w of
             (Inl x, w') \<Rightarrow> (Inl x, w')
           | (Inr response, w') \<Rightarrow>
               (case subscript response ''items'' of
                  Inl x \<Rightarrow> (Inl x, w')
                | Inr page_items \<Rightarrow>
                    (case iadd items page_items of
                       Inl x \<Rightarrow> (Inl x, w')
                     | Inr items' \<Rightarrow> (Inr (response, items'), w'))))
      | _ \<Rightarrow> (Inl AttributeError, w))"

datatype loop_step =
    Leave "(exc + json) \<times> world"
  | Again json json rat world

definition loop_body :: "env \<Rightarrow> spotify_api \<Rightarrow> json \<Rightarrow> json \<Rightarrow> rat \<Rightarrow> world \<Rightarrow> loop_step" where
  "loop_body e self response items last_log_time w =
     (case subscript response ''next'' of
        Inl x \<Rightarrow> Leave (Inl x, w)
      | Inr nxt \<Rightarrow>
          if \<not> truthy nxt then Leave (Inr items, w)
          else (case report_progress e response items last_log_time w of
                  (Inl x, w1) \<Rightarrow> Leave (Inl x, w1)
                | (Inr last', w1) \<Rightarrow>
                    (case next_page e self nxt items w1 of
                       (Inl x, w2) \<Rightarrow> Leave (Inl x, w2)
                     | (Inr (response', items'), w2) \<Rightarrow> Again response' items' last' w2)))"

text \<open>
  \<^verbatim>\<open>while response['next']\<close>: the loop runs for as long as the server names a next
  page, so it need not end; a run that never returns is \<open>None\<close>.
\<close>

partial_function (option) list_loop ::
    "env \<Rightarrow> spotify_api \<Rightarrow> json \<Rightarrow> json \<Rightarrow> rat \<Rightarrow> world \<Rightarrow> ((exc + json) \<times> world) option" where
  "list_loop e self response items last_log_time w =
     (case loop_body e self response items last_log_time w of
        Leave r \<Rightarrow> Some r
      | Again response' items' last' w' \<Rightarrow> list_loop e self response' items' last' w')"

text \<open>
  \<^verbatim>\<open>SpotifyAPI.list\<close>, under the name \<open>spotify_list\<close> because \<open>list\<close> is the
  type of lists.
\<close>

definition spotify_list :: "env \<Rightarrow> spotify_api \<Rightarrow> string \<Rightarrow> addr \<Rightarrow> world \<Rightarrow> ((exc + json) \<times> world) option" where
  "spotify_list e self url ps w =
     (let last_log_time = clock e (ticks w);
          w0 = w\<lparr>ticks := Suc (ticks w)\<rparr>
      in case get e self url ps 3 w0 of
           (Inl x, w1) \<Rightarrow> Some (Inl x, w1)
         | (Inr response, w1) \<Rightarrow>
             (case subscript response ''items'' of
                Inl x \<Rightarrow> Some (Inl x, w1)
              | Inr items \<Rightarrow> list_loop e self response items last_log_time w1))"

section \<open>SpotifyAPI.authorize and the local server\<close>

text \<open>
  \<^verbatim>\<open>re.search('access_token=([^&]*)', path)\<close>: the leftmost place where the literal
  text occurs, and for group 1 the longest run of characters other than \<^verbatim>\<open>&\<close> after it.
\<close>

fun search_after :: "string \<Rightarrow> string \<Rightarrow> string option" where
  "search_after pat [] = (if pat = [] then Some [] else None)"
| "search_after pat (c # cs) =
     (if prefix pat (c # cs) then Some (drop (length pat) (c # cs)) else search_after pat cs)"

definition re_search_access_token :: "string \<Rightarrow> string option" where
  "re_search_access_token path =
     map_option (takeWhile (\<lambda>c. c \<noteq> CHR ''&'')) (search_after ''access_token='' path)"

definition redirect_page :: string where
  \<open>redirect_page = ''<script>location.replace("token?" + location.hash.slice(1));</script>''\<close>

definition thanks_page :: string where
  "thanks_page = ''<script>close()</script>Thanks! You may now close this window.''"

text \<open>
  \<^verbatim>\<open>_AuthorizationHandler.do_GET\<close>: the response written, and the exception raised if
  any. On the token route, \<^verbatim>\<open>.group(1)\<close> of a search that found nothing is an
  \<^verbatim>\<open>AttributeError\<close>, raised after the page has been written. Writing to the
  client's socket is taken to succeed.
\<close>

definition do_GET :: "string \<Rightarrow> world \<Rightarrow> exc option \<times> world" where
  "do_GET path w =
     (if prefix ''/redirect'' path
      then (None, w\<lparr>replied := replied w @ [Page redirect_page]\<rparr>)
      else if prefix ''/token?'' path
      then (let w1 = w\<lparr>replied := replied w @ [Page thanks_page]\<rparr>
            in case re_search_access_token path of
                 None \<Rightarrow> (Some AttributeError, w1)
               | Some access_token \<Rightarrow>
                   (Some (Authorization access_token),
                    w1\<lparr>infos := infos w1 @ [ReceivedAccessToken access_token]\<rparr>))
      else (None, w\<lparr>replied := replied w @ [SendError 404]\<rparr>))"

text \<open>
  \<^verbatim>\<open>_AuthorizationServer.handle_error\<close> is a bare \<^verbatim>\<open>raise\<close>: called from the
  \<^verbatim>\<open>except Exception\<close> clause of the standard server, it raises the handler's
  exception again.
\<close>

definition handle_error :: "exc \<Rightarrow> exc option" where
  "handle_error x = Some x"

record http_request =
  command :: string
  path :: string

text \<open>
  \<^verbatim>\<open>server.handle_request()\<close> for one incoming request: the standard handler calls
  \<^verbatim>\<open>do_GET\<close> for a GET and answers 501 to a method the handler class does not define.
\<close>

definition handle_request :: "http_request \<Rightarrow> world \<Rightarrow> exc option \<times> world" where
  "handle_request r w =
     (if command r = ''GET''
      then (case do_GET (path r) w of
              (None, w') \<Rightarrow> (None, w')
            | (Some x, w') \<Rightarrow> (handle_error x, w'))
      else (None, w\<lparr>replied := replied w @ [SendError 501]\<rparr>))"

text \<open>
  \<^verbatim>\<open>while True: server.handle_request()\<close> over the requests that arrive. When no
  further request arrives the loop is still inside \<^verbatim>\<open>handle_request\<close>, listening.
\<close>

datatype served = Listening world | Raised exc world

fun serve :: "http_request list \<Rightarrow> world \<Rightarrow> served" where
  "serve [] w = Listening w"
| "serve (r # rs) w =
     (case handle_request r w of
        (None, w') \<Rightarrow> serve rs w'
      | (Some x, w') \<Rightarrow> Raised x w')"

definition server_port :: int where
  "server_port = 43019"

definition authorize_url :: "string \<Rightarrow> string \<Rightarrow> string" where
  "authorize_url client_id scope =
     ''https://accounts.spotify.com/authorize?'' @
     urlencode
       [(''response_type'', PStr ''token''),
        (''client_id'', PStr client_id),
        (''scope'', PStr scope),
        (''redirect_uri'', PStr (''http://127.0.0.1:'' @ str_int server_port @ ''/redirect''))]"

text \<open>
  \<^verbatim>\<open>authorize\<close> catches \<^verbatim>\<open>_Authorization\<close> only; any other exception leaves it. A
  server that listens for ever never returns: \<open>None\<close>.
\<close>

definition authorize ::
    "string \<Rightarrow> string \<Rightarrow> http_request list \<Rightarrow> world \<Rightarrow> ((exc + spotify_api) \<times> world) option" where
  "authorize client_id scope incoming w =
     (let url = authorize_url client_id scope;
          w1 = w\<lparr>infos := infos w @ [LoggingIn url], opened := opened w @ [url]\<rparr>
      in case serve incoming w1 of
           Listening w' \<Rightarrow> None
         | Raised (Authorization access_token) w' \<Rightarrow> Some (Inr \<lparr>auth = access_token\<rparr>, w')
         | Raised x w' \<Rightarrow> Some (Inl x, w'))"

text \<open>
  The login step of \<^verbatim>\<open>main\<close>: \<^verbatim>\<open>if args.token\<close> takes a token that is given and not
  empty, and everything else goes through the browser.
\<close>

definition main_client_id :: string where
  "main_client_id = ''f273705a8fa44a1f9b962c355c5ee6e5''"

definition main_scope :: string where
  "main_scope = ''playlist-read-private playlist-read-collaborative '' @
     ''user-library-read playlist-modify-public '' @ ''playlist-modify-private''"

definition log_in ::
    "string option \<Rightarrow> http_request list \<Rightarrow> world \<Rightarrow> ((exc + spotify_api) \<times> world) option" where
  "log_in token incoming w =
     (case token of
        None \<Rightarrow> authorize main_client_id main_scope incoming w
      | Some t \<Rightarrow>
          if t \<noteq> [] then Some (Inr \<lparr>auth = t\<rparr>, w)
          else authorize main_client_id main_scope incoming w)"

section \<open>Paginated responses\<close>

text \<open>
  The shape of a page of a list response: \<^verbatim>\<open>items\<close> is an array, \<^verbatim>\<open>next\<close> is null or
  the URL of the next page, \<^verbatim>\<open>total\<close> is an integer. Other keys may be present.
\<close>

definition is_page :: "json \<Rightarrow> bool" where
  "is_page p =
     ((case subscript p ''items'' of Inr (JArr xs) \<Rightarrow> True | _ \<Rightarrow> False) \<and>
      (case subscript p ''next'' of Inr JNull \<Rightarrow> True | Inr (JStr u) \<Rightarrow> u \<noteq> [] | _ \<Rightarrow> False) \<and>
      (case subscript p ''total'' of Inr (JInt n) \<Rightarrow> True | _ \<Rightarrow> False))"

definition items_of :: "json \<Rightarrow> json list" where
  "items_of p = (case subscript p ''items'' of Inr (JArr xs) \<Rightarrow> xs | _ \<Rightarrow> [])"

definition next_is_null :: "json \<Rightarrow> bool" where
  "next_is_null p = (subscript p ''next'' = Inr JNull)"

section \<open>Concrete worlds\<close>

text \<open>
  A fresh process: the default dicts are empty and nothing has happened.
\<close>

definition start :: world where
  "start = \<lparr>store = (\<lambda>a. []), sent = [], infos = [], slept = 0, ticks = 0,
     opened = [], replied = []\<rparr>"

text \<open>
  Transports for \<^verbatim>\<open>get\<close>: one that fails every call, and one that fails twice and then
  answers.
\<close>

definition failing :: env where
  "failing = \<lparr>transport = (\<lambda>h r. Fails ''timed out''), clock = (\<lambda>n. 0)\<rparr>"

definition flaky :: env where
  "flaky = \<lparr>transport = (\<lambda>h r. if length h < 2 then Fails ''connection reset''
                                else Replies (JObj [(''id'', JStr ''u1'')])),
            clock = (\<lambda>n. 0)\<rparr>"

text \<open>
  A list of three tracks in two pages, a transport that serves both, and one that serves
  the first and then fails. The clock moves twenty seconds between two readings, so the
  progress report is made.
\<close>

definition page_one :: json where
  "page_one = JObj [(''items'', JArr [JStr ''track1'', JStr ''track2'']),
                    (''next'', JStr ''https://api.spotify.com/v1/me/tracks?offset=2&limit=2''),
                    (''total'', JInt 3)]"

definition page_two :: json where
  "page_two = JObj [(''items'', JArr [JStr ''track3'']), (''next'', JNull), (''total'', JInt 3)]"

definition two_pages :: env where
  "two_pages = \<lparr>transport = (\<lambda>h r. if length h = 0 then Replies page_one
                                    else if length h = 1 then Replies page_two
                                    else Fails ''unexpected request''),
                clock = (\<lambda>n. 20 * of_nat n)\<rparr>"


text \<open>
  Two responses outside that shape: a page without the \<^verbatim>\<open>next\<close> key, and a first page
  whose \<^verbatim>\<open>next\<close> is the empty string, followed by the last page.
\<close>

definition page_without_next :: json where
  "page_without_next = JObj [(''items'', JArr [JStr ''track1'']), (''total'', JInt 1)]"

definition no_next_key :: env where
  "no_next_key = \<lparr>transport = (\<lambda>h r. Replies page_without_next), clock = (\<lambda>n. 0)\<rparr>"

definition page_empty_next :: json where
  "page_empty_next = JObj [(''items'', JArr [JStr ''track1'', JStr ''track2'']),
                           (''next'', JStr []), (''total'', JInt 3)]"

definition empty_next :: env where
  "empty_next = \<lparr>transport = (\<lambda>h r. if length h = 0 then Replies page_empty_next
                                     else Replies page_two),
                 clock = (\<lambda>n. 0)\<rparr>"

text \<open>A GET request as it reaches the local server.\<close>

definition GET :: "string \<Rightarrow> http_request" where
  "GET p = \<lparr>command = ''GET'', path = p\<rparr>"

section \<open>Properties\<close>

subsection \<open>Evaluating the encoders\<close>

lemma quote_plus_Nil: "quote_plus [] = []"
  by (simp add: quote_plus_def)

lemma quote_plus_Cons: "quote_plus (c # cs) = quote_char c @ quote_plus cs"
  by (simp add: quote_plus_def)

lemmas quote_eval = quote_plus_Nil quote_plus_Cons quote_char_def always_safe_def hex_digit_def

lemmas url_eval = urlencode_def str_int_def str_nat.simps quote_eval

lemma hex_digit_unreserved:
  "hex_digit n \<in> set ''ABCDEFGHIJKLMNOPQRSTUVWXYZabcdefghijklmnopqrstuvwxyz0123456789_.-~+%''"
proof -
  have "n mod 16 < length ''0123456789ABCDEF''" by simp
  then have "hex_digit n \<in> set ''0123456789ABCDEF''"
    unfolding hex_digit_def by (rule nth_mem)
  then show ?thesis by auto
qed

lemma quote_char_alphabet:
  "set (quote_char c) \<subseteq>
     set ''ABCDEFGHIJKLMNOPQRSTUVWXYZabcdefghijklmnopqrstuvwxyz0123456789_.-~+%''"
proof -
  define S where
    "S = set ''ABCDEFGHIJKLMNOPQRSTUVWXYZabcdefghijklmnopqrstuvwxyz0123456789_.-~+%''"
  have plus: "CHR ''+'' \<in> S" and pct: "CHR ''%'' \<in> S" by (simp_all add: S_def)
  have safe: "always_safe \<subseteq> S" unfolding S_def always_safe_def by auto
  have hex: "hex_digit n \<in> S" for n unfolding S_def by (rule hex_digit_unreserved)
  have "set (quote_char c) \<subseteq> S"
    using plus pct safe hex by (auto simp: quote_char_def)
  then show ?thesis by (simp only: S_def)
qed

lemma quote_plus_alphabet:
  "set (quote_plus s) \<subseteq>
     set ''ABCDEFGHIJKLMNOPQRSTUVWXYZabcdefghijklmnopqrstuvwxyz0123456789_.-~+%''"
proof -
  define S where
    "S = set ''ABCDEFGHIJKLMNOPQRSTUVWXYZabcdefghijklmnopqrstuvwxyz0123456789_.-~+%''"
  have "set (quote_char c) \<subseteq> S" for c unfolding S_def by (rule quote_char_alphabet)
  then have "set (quote_plus s) \<subseteq> S" by (induction s) (auto simp: quote_plus_def)
  then show ?thesis by (simp only: S_def)
qed

lemma quote_plus_append: "quote_plus (s @ t) = quote_plus s @ quote_plus t"
  by (simp add: quote_plus_def)

lemma set_join: "set (join sep xs) \<subseteq> set sep \<union> \<Union> (set ` set xs)"
  by (induction sep xs rule: join.induct) auto

lemma urlencode_alphabet:
  "set (urlencode ps) \<subseteq>
     set ''ABCDEFGHIJKLMNOPQRSTUVWXYZabcdefghijklmnopqrstuvwxyz0123456789_.-~+%=&''"
proof -
  define S where
    "S = set ''ABCDEFGHIJKLMNOPQRSTUVWXYZabcdefghijklmnopqrstuvwxyz0123456789_.-~+%''"
  define T where
    "T = set ''ABCDEFGHIJKLMNOPQRSTUVWXYZabcdefghijklmnopqrstuvwxyz0123456789_.-~+%=&''"
  have ST: "S \<subseteq> T" unfolding S_def T_def by auto
  have eq: "CHR ''='' \<in> T" and amp: "CHR ''&'' \<in> T" by (simp_all add: T_def)
  have q: "set (quote_plus s) \<subseteq> T" for s
    using quote_plus_alphabet [of s] ST unfolding S_def by blast
  let ?f = "\<lambda>kv. quote_plus (fst kv) @ ''='' @ quote_plus (str_pval (snd kv))"
  have pair: "set (?f kv) \<subseteq> T" for kv
    using q [of "fst kv"] q [of "str_pval (snd kv)"] eq by auto
  have "set (join ''&'' (map ?f ps)) \<subseteq> set ''&'' \<union> \<Union> (set ` set (map ?f ps))"
    by (rule set_join)
  also have "\<dots> \<subseteq> T" using amp pair by auto
  finally have "set (urlencode ps) \<subseteq> T" by (simp only: urlencode_def)
  then show ?thesis by (simp only: T_def)
qed

subsection \<open>The attempt loop\<close>

lemma attempts_sent:
  "\<exists>k\<le>n. sent (snd (attempts e req n w)) = sent w @ replicate k req"
proof (induction n arbitrary: w)
  case 0
  show ?case by simp
next
  case (Suc n)
  show ?case
  proof (cases "transport e (sent w) req")
    case (Replies j)
    then have "sent (snd (attempts e req (Suc n) w)) = sent w @ replicate 1 req"
      by simp
    then show ?thesis by (intro exI [of _ 1]) simp
  next
    case (Fails err)
    let ?w = "w\<lparr>sent := sent w @ [req],
               infos := infos w @ [CouldntLoadURL (req_url req) err, TryingAgain],
               slept := slept w + 2\<rparr>"
    from Suc.IH [of ?w] obtain k where k: "k \<le> n"
      "sent (snd (attempts e req n ?w)) = sent ?w @ replicate k req" by blast
    have "sent (snd (attempts e req (Suc n) w)) = sent w @ replicate (Suc k) req"
      using Fails k(2) by (simp add: replicate_app_Cons_same)
    with k(1) show ?thesis by (intro exI [of _ "Suc k"]) simp
  qed
qed

lemma attempts_store: "store (snd (attempts e req n w)) = store w"
  by (induction n arbitrary: w) (auto split: outcome.splits)

lemma attempts_all_fail:
  assumes "\<And>h. \<exists>err. transport e h req = Fails err"
  shows "fst (attempts e req n w) = Inl (SystemExit 1) \<and>
         sent (snd (attempts e req n w)) = sent w @ replicate n req \<and>
         slept (snd (attempts e req n w)) = slept w + 2 * n"
proof (induction n arbitrary: w)
  case 0
  show ?case by simp
next
  case (Suc n)
  from assms obtain err where f: "transport e (sent w) req = Fails err" by blast
  show ?case using f Suc.IH by (simp add: replicate_app_Cons_same)
qed

lemma attempts_recover:
  assumes "\<And>i. i < k \<Longrightarrow> \<exists>err. transport e (sent w @ replicate i req) req = Fails err"
    and "transport e (sent w @ replicate k req) req = Replies j"
    and "k < n"
  shows "fst (attempts e req n w) = Inr j \<and>
         sent (snd (attempts e req n w)) = sent w @ replicate (Suc k) req"
  using assms
proof (induction n arbitrary: w k)
  case 0
  then show ?case by simp
next
  case (Suc n)
  show ?case
  proof (cases k)
    case 0
    with Suc.prems(2) show ?thesis by simp
  next
    case (Suc k')
    from Suc.prems(1) [of 0] Suc obtain err where f: "transport e (sent w) req = Fails err"
      by auto
    let ?w = "w\<lparr>sent := sent w @ [req],
               infos := infos w @ [CouldntLoadURL (req_url req) err, TryingAgain],
               slept := slept w + 2\<rparr>"
    have a: "\<And>i. i < k' \<Longrightarrow> \<exists>err. transport e (sent ?w @ replicate i req) req = Fails err"
      using Suc.prems(1) [of "Suc _"] Suc by (simp add: replicate_app_Cons_same)
    have b: "transport e (sent ?w @ replicate k' req) req = Replies j"
      using Suc.prems(2) Suc by (simp add: replicate_app_Cons_same)
    have c: "k' < n" using Suc.prems(3) Suc by simp
    from Suc.IH [of k' ?w, OF a b c] show ?thesis
      using f Suc by (simp add: replicate_app_Cons_same)
  qed
qed

subsection \<open>Retrying\<close>

text \<open>
  C2. Against a transport that fails every call, \<^verbatim>\<open>get\<close> and \<^verbatim>\<open>post\<close> make exactly
  \<open>tries\<close> attempts (three by default), each with the same request, and then leave
  through \<^verbatim>\<open>sys.exit(1)\<close>: the result is \<open>SystemExit 1\<close>, never a value.
\<close>

theorem retry_bound:
  assumes "\<forall>h r. \<exists>err. transport e h r = Fails err"
  shows "(0 \<le> tries \<longrightarrow>
            fst (get e self url ps tries w) = Inl (SystemExit 1) \<and>
            int (length (sent (snd (get e self url ps tries w)))) = int (length (sent w)) + tries \<and>
            fst (post e self url ps data tries w) = Inl (SystemExit 1) \<and>
            int (length (sent (snd (post e self url ps data tries w)))) = int (length (sent w)) + tries)
       \<and> fst (get e self url ps 3 w) = Inl (SystemExit 1)
       \<and> sent (snd (get e self url ps 3 w)) =
            sent w @ replicate 3 (get_request self (construct_url url (store w ps)))
       \<and> fst (post e self url ps data 3 w) = Inl (SystemExit 1)
       \<and> sent (snd (post e self url ps data 3 w)) =
            sent w @ replicate 3 (post_request self (construct_url url (store w ps)) data)"
proof -
  have f: "\<And>req h. \<exists>err. transport e h req = Fails err" using assms by blast
  note a = attempts_all_fail [OF f]
  have "nat 3 = (3::nat)" by simp
  then show ?thesis using a by (simp add: get_def post_def)
qed

theorem retry_bound_witness:
  "(\<forall>h r. \<exists>err. transport failing h r = Fails err) \<and>
   fst (get failing \<lparr>auth = ''t''\<rparr> ''me'' get_params_default 3 start) = Inl (SystemExit 1) \<and>
   length (sent (snd (get failing \<lparr>auth = ''t''\<rparr> ''me'' get_params_default 3 start))) = 3"
proof -
  have h: "\<forall>h r. \<exists>err. transport failing h r = Fails err"
    by (simp add: failing_def)
  from retry_bound [OF h, of 3 "\<lparr>auth = ''t''\<rparr>" "''me''" get_params_default start]
  show ?thesis using h by (simp add: start_def)
qed

text \<open>
  C5. When the first \<open>tries - 1\<close> attempts fail and attempt number \<open>tries\<close> is
  answered, \<^verbatim>\<open>get\<close> returns the decoded answer after exactly \<open>tries\<close> attempts; it
  does not exit.
\<close>

theorem retry_recovery:
  assumes "0 < tries"
    and "\<forall>i < nat tries - 1. \<exists>err.
           transport e (sent w @ replicate i (get_request self (construct_url url (store w ps))))
             (get_request self (construct_url url (store w ps))) = Fails err"
    and "transport e
           (sent w @ replicate (nat tries - 1) (get_request self (construct_url url (store w ps))))
           (get_request self (construct_url url (store w ps))) = Replies j"
  shows "fst (get e self url ps tries w) = Inr j \<and>
         int (length (sent (snd (get e self url ps tries w)))) = int (length (sent w)) + tries"
proof -
  let ?req = "get_request self (construct_url url (store w ps))"
  have a: "\<And>i. i < nat tries - 1 \<Longrightarrow> \<exists>err. transport e (sent w @ replicate i ?req) ?req = Fails err"
    using assms(2) by blast
  have c: "nat tries - 1 < nat tries" using assms(1) by simp
  from attempts_recover [of "nat tries - 1" e w ?req j "nat tries", OF a assms(3) c]
  show ?thesis using assms(1) by (simp add: get_def)
qed

theorem retry_recovery_witness:
  "fst (get flaky \<lparr>auth = ''t''\<rparr> ''me'' get_params_default 3 start) = Inr (JObj [(''id'', JStr ''u1'')]) \<and>
   length (sent (snd (get flaky \<lparr>auth = ''t''\<rparr> ''me'' get_params_default 3 start))) = 3"
proof -
  let ?req = "get_request \<lparr>auth = ''t''\<rparr> (construct_url ''me'' (store start get_params_default))"
  have a: "(0::int) < 3" by simp
  have b: "\<forall>i < nat 3 - 1. \<exists>err. transport flaky (sent start @ replicate i ?req) ?req = Fails err"
    by (simp add: flaky_def start_def)
  have c: "transport flaky (sent start @ replicate (nat 3 - 1) ?req) ?req
             = Replies (JObj [(''id'', JStr ''u1'')])"
    by (simp add: flaky_def start_def)
  from retry_recovery [OF a b c] show ?thesis by (simp add: start_def)
qed

subsection \<open>URLs\<close>

lemma flaky_get_sent:
  "length (sent (snd (get flaky \<lparr>auth = ''t''\<rparr> ''me'' get_params_default 3 start))) = 3"
proof -
  let ?req = "get_request \<lparr>auth = ''t''\<rparr> (construct_url ''me'' (store start get_params_default))"
  have a: "\<And>i. i < 2 \<Longrightarrow> \<exists>err. transport flaky (sent start @ replicate i ?req) ?req = Fails err"
    by (simp add: flaky_def start_def)
  have b: "transport flaky (sent start @ replicate 2 ?req) ?req = Replies (JObj [(''id'', JStr ''u1'')])"
    by (simp add: flaky_def start_def)
  have c: "(2::nat) < 3" by simp
  from attempts_recover [of 2 flaky start ?req _ 3, OF a b c]
  show ?thesis by (simp add: get_def start_def)
qed

text \<open>
  C4. URL construction in \<^verbatim>\<open>get\<close> and \<^verbatim>\<open>post\<close>: the path \<^verbatim>\<open>me\<close> becomes
  \<^verbatim>\<open>https://api.spotify.com/v1/me\<close>; a path that starts with the base URL is used as
  it is and any other is prefixed with it; a non-empty parameter dict is encoded pair by
  pair in insertion order and appended with \<^verbatim>\<open>?\<close> when the URL has none and with
  \<^verbatim>\<open>&\<close> when it has one; and every request that \<^verbatim>\<open>get\<close> or \<^verbatim>\<open>post\<close> sends
  carries that URL. The encoding is URL encoding: letters, digits and \<^verbatim>\<open>_.-~\<close> stay, a
  space becomes \<^verbatim>\<open>+\<close>, any other character becomes \<^verbatim>\<open>%\<close> and its two upper-case
  hexadecimal digits, so that an encoded key or value holds none of \<^verbatim>\<open>& = ? / #\<close> or a
  space; the search query of \<^verbatim>\<open>main\<close> for \<^verbatim>\<open>AC/DC T.N.T\<close> becomes
  \<^verbatim>\<open>q=AC%2FDC+T.N.T&type=track&limit=1\<close>.
\<close>

theorem url_construction:
  "construct_url ''me'' [] = ''https://api.spotify.com/v1/me''
   \<and> (prefix ''https://api.spotify.com/v1/'' url \<longrightarrow> construct_url url [] = url)
   \<and> (\<not> prefix ''https://api.spotify.com/v1/'' url \<longrightarrow>
        construct_url url [] = ''https://api.spotify.com/v1/'' @ url)
   \<and> (ps \<noteq> [] \<and> CHR ''?'' \<notin> set (construct_url url []) \<longrightarrow>
        construct_url url ps = construct_url url [] @ ''?'' @ urlencode ps)
   \<and> (ps \<noteq> [] \<and> CHR ''?'' \<in> set (construct_url url []) \<longrightarrow>
        construct_url url ps = construct_url url [] @ ''&'' @ urlencode ps)
   \<and> urlencode ((k, v) # (k', v') # ps) =
        quote_plus k @ ''='' @ quote_plus (str_pval v) @ ''&'' @ urlencode ((k', v') # ps)
   \<and> urlencode [(k, v)] = quote_plus k @ ''='' @ quote_plus (str_pval v)
   \<and> urlencode [(''a'', PInt 1), (''b'', PInt 2)] = ''a=1&b=2''
   \<and> (\<forall>r \<in> set (drop (length (sent w)) (sent (snd (get e self url a tries w)))).
         req_url r = construct_url url (store w a))
   \<and> (\<forall>r \<in> set (drop (length (sent w)) (sent (snd (post e self url a data tries w)))).
         req_url r = construct_url url (store w a))
   \<and> quote_plus ''AC/DC T.N.T'' = ''AC%2FDC+T.N.T''
   \<and> quote_plus ''a&b=c?d#e%f+g'' = ''a%26b%3Dc%3Fd%23e%25f%2Bg''
   \<and> urlencode [(''q'', PStr ''AC/DC T.N.T''), (''type'', PStr ''track''), (''limit'', PInt 1)] =
        ''q=AC%2FDC+T.N.T&type=track&limit=1''
   \<and> construct_url ''search''
        [(''q'', PStr ''AC/DC T.N.T''), (''type'', PStr ''track''), (''limit'', PInt 1)] =
        ''https://api.spotify.com/v1/search?q=AC%2FDC+T.N.T&type=track&limit=1''
   \<and> set (quote_plus s) \<subseteq>
        set ''ABCDEFGHIJKLMNOPQRSTUVWXYZabcdefghijklmnopqrstuvwxyz0123456789_.-~+%''
   \<and> set (urlencode ps) \<subseteq>
        set ''ABCDEFGHIJKLMNOPQRSTUVWXYZabcdefghijklmnopqrstuvwxyz0123456789_.-~+%=&''
   \<and> quote_plus (s @ t) = quote_plus s @ quote_plus t
   \<and> (c \<in> set ''ABCDEFGHIJKLMNOPQRSTUVWXYZabcdefghijklmnopqrstuvwxyz0123456789_.-~'' \<longrightarrow>
        quote_plus [c] = [c])
   \<and> quote_plus '' '' = ''+''
   \<and> (c \<notin> set ''ABCDEFGHIJKLMNOPQRSTUVWXYZabcdefghijklmnopqrstuvwxyz0123456789_.-~ '' \<longrightarrow>
        quote_plus [c] =
          [CHR ''%'', ''0123456789ABCDEF'' ! (of_char c div 16),
           ''0123456789ABCDEF'' ! (of_char c mod 16)])"
proof -
  have 1: "construct_url ''me'' [] = ''https://api.spotify.com/v1/me''"
    by (simp add: construct_url_def api_base_def)
  have 2: "prefix ''https://api.spotify.com/v1/'' url \<longrightarrow> construct_url url [] = url"
    by (simp add: construct_url_def api_base_def)
  have 3: "\<not> prefix ''https://api.spotify.com/v1/'' url \<longrightarrow>
        construct_url url [] = ''https://api.spotify.com/v1/'' @ url"
    by (simp add: construct_url_def api_base_def)
  have 4: "ps \<noteq> [] \<and> CHR ''?'' \<notin> set (construct_url url []) \<longrightarrow>
        construct_url url ps = construct_url url [] @ ''?'' @ urlencode ps"
    by (simp add: construct_url_def Let_def)
  have 5: "ps \<noteq> [] \<and> CHR ''?'' \<in> set (construct_url url []) \<longrightarrow>
        construct_url url ps = construct_url url [] @ ''&'' @ urlencode ps"
    by (simp add: construct_url_def Let_def)
  have 6: "urlencode ((k, v) # (k', v') # ps) =
        quote_plus k @ ''='' @ quote_plus (str_pval v) @ ''&'' @ urlencode ((k', v') # ps)"
    by (simp add: urlencode_def)
  have 7: "urlencode [(k, v)] = quote_plus k @ ''='' @ quote_plus (str_pval v)"
    by (simp add: urlencode_def)
  have 8: "urlencode [(''a'', PInt 1), (''b'', PInt 2)] = ''a=1&b=2''"
    by (simp add: url_eval)
  have 9: "\<forall>r \<in> set (drop (length (sent w)) (sent (snd (get e self url a tries w)))).
         req_url r = construct_url url (store w a)"
    using attempts_sent [of "nat tries" e "get_request self (construct_url url (store w a))" w]
    by (auto simp: get_def get_request_def)
  have 10: "\<forall>r \<in> set (drop (length (sent w)) (sent (snd (post e self url a data tries w)))).
         req_url r = construct_url url (store w a)"
    using attempts_sent [of "nat tries" e "post_request self (construct_url url (store w a)) data" w]
    by (auto simp: post_def post_request_def)
  have 11: "quote_plus ''AC/DC T.N.T'' = ''AC%2FDC+T.N.T''"
    by (simp add: quote_eval)
  have 12: "quote_plus ''a&b=c?d#e%f+g'' = ''a%26b%3Dc%3Fd%23e%25f%2Bg''"
    by (simp add: quote_eval)
  have 13: "urlencode [(''q'', PStr ''AC/DC T.N.T''), (''type'', PStr ''track''), (''limit'', PInt 1)] =
        ''q=AC%2FDC+T.N.T&type=track&limit=1''"
    by (simp add: url_eval)
  have 14: "construct_url ''search''
        [(''q'', PStr ''AC/DC T.N.T''), (''type'', PStr ''track''), (''limit'', PInt 1)] =
        ''https://api.spotify.com/v1/search?q=AC%2FDC+T.N.T&type=track&limit=1''"
    by (simp add: construct_url_def api_base_def 13)
  have 15: "set (quote_plus s) \<subseteq>
        set ''ABCDEFGHIJKLMNOPQRSTUVWXYZabcdefghijklmnopqrstuvwxyz0123456789_.-~+%''"
    by (rule quote_plus_alphabet)
  have 16: "set (urlencode ps) \<subseteq>
        set ''ABCDEFGHIJKLMNOPQRSTUVWXYZabcdefghijklmnopqrstuvwxyz0123456789_.-~+%=&''"
    by (rule urlencode_alphabet)
  have 17: "quote_plus (s @ t) = quote_plus s @ quote_plus t"
    by (rule quote_plus_append)
  have 18: "c \<in> set ''ABCDEFGHIJKLMNOPQRSTUVWXYZabcdefghijklmnopqrstuvwxyz0123456789_.-~'' \<longrightarrow>
        quote_plus [c] = [c]"
    by (auto simp: quote_eval)
  have 19: "quote_plus '' '' = ''+''"
    by (simp add: quote_eval)
  have lt: "of_char c div 16 < (16::nat)"
  proof -
    have "of_char c mod (256::nat) < 256" by simp
    then have "of_char c < (256::nat)" by simp
    then show ?thesis by arith
  qed
  have 20: "c \<notin> set ''ABCDEFGHIJKLMNOPQRSTUVWXYZabcdefghijklmnopqrstuvwxyz0123456789_.-~ '' \<longrightarrow>
        quote_plus [c] =
          [CHR ''%'', ''0123456789ABCDEF'' ! (of_char c div 16),
           ''0123456789ABCDEF'' ! (of_char c mod 16)]"
    using lt by (simp add: quote_eval)
  show ?thesis
    by (intro conjI; fact 1 2 3 4 5 6 7 8 9 10 11 12 13 14 15 16 17 18 19 20)
qed

theorem url_construction_witness:
  "construct_url ''https://api.spotify.com/v1/me/tracks'' [] = ''https://api.spotify.com/v1/me/tracks''
   \<and> construct_url ''search'' [(''a'', PInt 1), (''b'', PInt 2)] =
       ''https://api.spotify.com/v1/search?a=1&b=2''
   \<and> construct_url ''search?x=1'' [(''a'', PInt 1), (''b'', PInt 2)] =
       ''https://api.spotify.com/v1/search?x=1&a=1&b=2''
   \<and> construct_url ''search''
       [(''q'', PStr ''AC/DC T.N.T''), (''type'', PStr ''track''), (''limit'', PInt 1)] =
       ''https://api.spotify.com/v1/search?q=AC%2FDC+T.N.T&type=track&limit=1''
   \<and> map req_url (sent (snd (get flaky \<lparr>auth = ''t''\<rparr> ''me'' get_params_default 3 start))) =
       replicate 3 ''https://api.spotify.com/v1/me''"
proof -
  let ?ab = "[(''a'', PInt 1), (''b'', PInt 2)]"
  let ?base = "''https://api.spotify.com/v1/''"
  have enc: "urlencode ?ab = ''a=1&b=2''"
    using url_construction [THEN conjunct2, THEN conjunct2, THEN conjunct2, THEN conjunct2,
      THEN conjunct2, THEN conjunct2, THEN conjunct2, THEN conjunct1] .
  have p: "prefix ?base ''https://api.spotify.com/v1/me/tracks''" by simp
  have a: "construct_url ''https://api.spotify.com/v1/me/tracks'' [] = ''https://api.spotify.com/v1/me/tracks''"
    using url_construction [where url = "''https://api.spotify.com/v1/me/tracks''",
      THEN conjunct2, THEN conjunct1, rule_format, OF p] .
  have n1: "\<not> prefix ?base ''search''" by simp
  have b0: "construct_url ''search'' [] = ?base @ ''search''"
    using url_construction [where url = "''search''",
      THEN conjunct2, THEN conjunct2, THEN conjunct1, rule_format, OF n1] .
  have b1: "?ab \<noteq> [] \<and> CHR ''?'' \<notin> set (construct_url ''search'' [])"
    by (simp add: b0)
  have b: "construct_url ''search'' ?ab = ''https://api.spotify.com/v1/search?a=1&b=2''"
    using url_construction [where url = "''search''" and ps = ?ab, THEN conjunct2,
      THEN conjunct2, THEN conjunct2, THEN conjunct1, rule_format, OF b1]
    by (simp add: b0 enc)
  have n2: "\<not> prefix ?base ''search?x=1''" by simp
  have c0: "construct_url ''search?x=1'' [] = ?base @ ''search?x=1''"
    using url_construction [where url = "''search?x=1''",
      THEN conjunct2, THEN conjunct2, THEN conjunct1, rule_format, OF n2] .
  have c1: "?ab \<noteq> [] \<and> CHR ''?'' \<in> set (construct_url ''search?x=1'' [])"
    by (simp add: c0)
  have c: "construct_url ''search?x=1'' ?ab = ''https://api.spotify.com/v1/search?x=1&a=1&b=2''"
    using url_construction [where url = "''search?x=1''" and ps = ?ab, THEN conjunct2,
      THEN conjunct2, THEN conjunct2, THEN conjunct2, THEN conjunct1, rule_format, OF c1]
    by (simp add: c0 enc)
  let ?q = "[(''q'', PStr ''AC/DC T.N.T''), (''type'', PStr ''track''), (''limit'', PInt 1)]"
  have encq: "urlencode ?q = ''q=AC%2FDC+T.N.T&type=track&limit=1''"
    using url_construction [THEN conjunct2, THEN conjunct2, THEN conjunct2, THEN conjunct2, THEN conjunct2, THEN conjunct2, THEN conjunct2, THEN conjunct2, THEN conjunct2, THEN conjunct2, THEN conjunct2, THEN conjunct2, THEN conjunct1] .
  have q1: "?q \<noteq> [] \<and> CHR ''?'' \<notin> set (construct_url ''search'' [])"
    by (simp add: b0)
  have q: "construct_url ''search'' ?q =
             ''https://api.spotify.com/v1/search?q=AC%2FDC+T.N.T&type=track&limit=1''"
    using url_construction [where url = "''search''" and ps = ?q, THEN conjunct2,
      THEN conjunct2, THEN conjunct2, THEN conjunct1, rule_format, OF q1]
    by (simp add: b0 encq)
  let ?s = "sent (snd (get flaky \<lparr>auth = ''t''\<rparr> ''me'' get_params_default 3 start))"
  have l: "length ?s = 3" by (rule flaky_get_sent)
  have me: "construct_url ''me'' [] = ''https://api.spotify.com/v1/me''"
    using url_construction [THEN conjunct1] .
  have "\<forall>r \<in> set (drop (length (sent start)) ?s).
          req_url r = construct_url ''me'' (store start get_params_default)"
    using url_construction [where w = start and e = flaky and self = "\<lparr>auth = ''t''\<rparr>"
        and url = "''me''" and a = get_params_default and tries = 3,
        THEN conjunct2, THEN conjunct2, THEN conjunct2, THEN conjunct2,
        THEN conjunct2, THEN conjunct2, THEN conjunct2, THEN conjunct2, THEN conjunct1] .
  moreover have "store start get_params_default = []" "sent start = []"
    by (simp_all add: start_def)
  ultimately have "\<forall>r \<in> set ?s. req_url r = ''https://api.spotify.com/v1/me''"
    using me by simp
  then have "map req_url ?s = map (\<lambda>r. ''https://api.spotify.com/v1/me'') ?s"
    by (intro map_cong [OF refl]) blast
  then have d: "map req_url ?s = replicate 3 ''https://api.spotify.com/v1/me''"
    by (simp only: map_replicate_const l)
  from a b c q d show ?thesis by (intro conjI)
qed

text \<open>
  C6. The URL that \<^verbatim>\<open>authorize\<close> builds carries, in this order, \<^verbatim>\<open>response_type=token\<close>,
  the encoded client id, the encoded scope and the encoded redirect URI
  \<^verbatim>\<open>http://127.0.0.1:43019/redirect\<close>; for the client id \<^verbatim>\<open>X\<close> and the scope
  \<^verbatim>\<open>a b\<close> the query is \<^verbatim>\<open>response_type=token&client_id=X&scope=a+b\<close> followed by
  the redirect URI. The port is the fixed 43019.
\<close>

theorem authorization_url:
  "authorize_url client_id scope =
     ''https://accounts.spotify.com/authorize?response_type=token&client_id='' @
     quote_plus client_id @ ''&scope='' @ quote_plus scope @ ''&redirect_uri='' @
     quote_plus ''http://127.0.0.1:43019/redirect''
   \<and> authorize_url ''X'' ''a b'' =
     ''https://accounts.spotify.com/authorize?response_type=token&client_id=X&scope=a+b'' @
     ''&redirect_uri=http%3A%2F%2F127.0.0.1%3A43019%2Fredirect''
   \<and> server_port = 43019"
proof -
  have p: "str_int server_port = ''43019''"
    by (simp add: server_port_def str_int_def str_nat.simps)
  have t: "quote_plus ''token'' = ''token''" "quote_plus ''response_type'' = ''response_type''"
    "quote_plus ''client_id'' = ''client_id''" "quote_plus ''scope'' = ''scope''"
    "quote_plus ''redirect_uri'' = ''redirect_uri''"
    by (simp_all add: quote_eval)
  have g: "authorize_url client_id scope =
     ''https://accounts.spotify.com/authorize?response_type=token&client_id='' @
     quote_plus client_id @ ''&scope='' @ quote_plus scope @ ''&redirect_uri='' @
     quote_plus ''http://127.0.0.1:43019/redirect''" for client_id scope
    by (simp add: authorize_url_def urlencode_def p t)
  have x: "quote_plus ''X'' = ''X''" "quote_plus ''a b'' = ''a+b''"
    by (simp_all add: quote_eval)
  have r: "quote_plus ''http://127.0.0.1:43019/redirect'' = ''http%3A%2F%2F127.0.0.1%3A43019%2Fredirect''"
    by (simp add: quote_eval)
  show ?thesis
    apply (intro conjI)
      apply (rule g)
     apply (simp add: g x r)
    apply (simp add: server_port_def)
    done
qed

subsection \<open>The local server\<close>

lemma token_not_redirect: "prefix ''/token?'' p \<Longrightarrow> \<not> prefix ''/redirect'' p"
  by (auto simp: prefix_def)

lemma handle_request_other:
  assumes "\<not> (command r = ''GET'' \<and> prefix ''/token?'' (path r))"
  shows "\<exists>resp. handle_request r w = (None, w\<lparr>replied := replied w @ [resp]\<rparr>)"
  using assms by (auto simp: handle_request_def do_GET_def)

lemma handle_request_token:
  assumes "command r = ''GET''" and "prefix ''/token?'' (path r)"
  shows "\<exists>x w'. handle_request r w = (Some x, w') \<and> replied w' = replied w @ [Page thanks_page] \<and>
           x = (case re_search_access_token (path r) of
                  None \<Rightarrow> AttributeError | Some t \<Rightarrow> Authorization t)"
  using assms token_not_redirect [OF assms(2)]
  by (auto simp: handle_request_def do_GET_def handle_error_def Let_def split: option.splits)

lemma handle_request_Some:
  assumes "handle_request r w = (Some x, w')"
  shows "command r = ''GET'' \<and> prefix ''/token?'' (path r) \<and>
         x = (case re_search_access_token (path r) of
                  None \<Rightarrow> AttributeError | Some t \<Rightarrow> Authorization t)"
  using assms
  by (auto simp: handle_request_def do_GET_def handle_error_def Let_def
      split: option.splits if_splits)

lemma serve_others:
  assumes "\<forall>r\<in>set pre. \<not> (command r = ''GET'' \<and> prefix ''/token?'' (path r))"
  shows "\<exists>w'. serve (pre @ rest) w = serve rest w' \<and>
          length (replied w') = length (replied w) + length pre"
  using assms
proof (induction pre arbitrary: w)
  case Nil
  show ?case by (intro exI [of _ w]) simp
next
  case (Cons r pre)
  from Cons.prems have "\<not> (command r = ''GET'' \<and> prefix ''/token?'' (path r))" by simp
  from handle_request_other [OF this, of w] obtain resp where
    h: "handle_request r w = (None, w\<lparr>replied := replied w @ [resp]\<rparr>)" by blast
  from Cons.prems have "\<forall>r\<in>set pre. \<not> (command r = ''GET'' \<and> prefix ''/token?'' (path r))"
    by simp
  from Cons.IH [OF this, of "w\<lparr>replied := replied w @ [resp]\<rparr>"] obtain w' where
    w': "serve (pre @ rest) (w\<lparr>replied := replied w @ [resp]\<rparr>) = serve rest w'"
      "length (replied w') = length (replied w) + 1 + length pre"
    by auto
  have "serve ((r # pre) @ rest) w = serve rest w'"
    using h w'(1) by simp
  moreover have "length (replied w') = length (replied w) + length (r # pre)"
    using w'(2) by simp
  ultimately show ?case by blast
qed

lemma serve_Raised:
  assumes "serve rs w = Raised x w'"
  shows "\<exists>r\<in>set rs. command r = ''GET'' \<and> prefix ''/token?'' (path r) \<and>
         x = (case re_search_access_token (path r) of
                  None \<Rightarrow> AttributeError | Some t \<Rightarrow> Authorization t)"
  using assms
proof (induction rs arbitrary: w)
  case Nil
  then show ?case by simp
next
  case (Cons r rs)
  show ?case
  proof (cases "handle_request r w")
    case (Pair o1 w1)
    show ?thesis
    proof (cases o1)
      case None
      with Pair Cons.prems have "serve rs w1 = Raised x w'" by simp
      from Cons.IH [OF this] show ?thesis by auto
    next
      case (Some y)
      with Pair Cons.prems have "y = x" by simp
      with handle_request_Some [of r w y w1] Pair Some show ?thesis by simp
    qed
  qed
qed

text \<open>
  C3. The serving loop keeps listening through every request that is not a GET of a
  path starting with \<^verbatim>\<open>/token?\<close>: each gets its response (the script page for
  \<^verbatim>\<open>/redirect\<close>, 404 for an unknown route) and \<^verbatim>\<open>authorize\<close> does not return. The
  first request to the token route ends the loop at once: exactly one more response has
  been written, the requests after it are never handled, and \<^verbatim>\<open>authorize\<close> returns.
\<close>

theorem capture_termination:
  assumes "\<forall>q\<in>set pre. \<not> (command q = ''GET'' \<and> prefix ''/token?'' (path q))"
  shows "(\<exists>w'. serve pre w = Listening w' \<and>
               length (replied w') = length (replied w) + length pre)
       \<and> authorize client_id scope pre w = None
       \<and> (command r = ''GET'' \<and> prefix ''/token?'' (path r) \<longrightarrow>
            (\<exists>x w'. serve (pre @ r # later) w = Raised x w' \<and>
                     length (replied w') = length (replied w) + length pre + 1) \<and>
            authorize client_id scope (pre @ r # later) w \<noteq> None)
       \<and> (command r = ''GET'' \<and> prefix ''/redirect'' (path r) \<longrightarrow>
            handle_request r w = (None, w\<lparr>replied := replied w @ [Page redirect_page]\<rparr>))
       \<and> (command r = ''GET'' \<and> \<not> prefix ''/redirect'' (path r) \<and> \<not> prefix ''/token?'' (path r) \<longrightarrow>
            handle_request r w = (None, w\<lparr>replied := replied w @ [SendError 404]\<rparr>))"
proof -
  have listen: "\<exists>w'. serve pre v = Listening w' \<and>
               length (replied w') = length (replied v) + length pre" for v
    using serve_others [OF assms, of "[]" v] by simp
  have a: "authorize client_id scope pre w = None"
  proof -
    let ?w1 = "w\<lparr>infos := infos w @ [LoggingIn (authorize_url client_id scope)],
                  opened := opened w @ [authorize_url client_id scope]\<rparr>"
    from listen [of ?w1] obtain w' where "serve pre ?w1 = Listening w'" by blast
    then show ?thesis by (simp add: authorize_def Let_def)
  qed
  have stop: "\<exists>x w'. serve (pre @ r # later) v = Raised x w' \<and>
                     length (replied w') = length (replied v) + length pre + 1"
    if t: "command r = ''GET'' \<and> prefix ''/token?'' (path r)" for v
  proof -
    from serve_others [OF assms, of "r # later" v] obtain w1 where
      w1: "serve (pre @ r # later) v = serve (r # later) w1"
        "length (replied w1) = length (replied v) + length pre" by blast
    from handle_request_token [of r w1] t obtain x w2 where
      h: "handle_request r w1 = (Some x, w2)" "replied w2 = replied w1 @ [Page thanks_page]"
      by blast
    have "serve (pre @ r # later) v = Raised x w2" using w1(1) h(1) by simp
    moreover have "length (replied w2) = length (replied v) + length pre + 1"
      using w1(2) h(2) by simp
    ultimately show ?thesis by blast
  qed
  have b: "authorize client_id scope (pre @ r # later) w \<noteq> None"
    if t: "command r = ''GET'' \<and> prefix ''/token?'' (path r)"
  proof -
    let ?w1 = "w\<lparr>infos := infos w @ [LoggingIn (authorize_url client_id scope)],
                  opened := opened w @ [authorize_url client_id scope]\<rparr>"
    from stop [OF t, of ?w1] obtain x w' where "serve (pre @ r # later) ?w1 = Raised x w'"
      by blast
    then show ?thesis by (cases x) (simp_all add: authorize_def Let_def)
  qed
  have c: "command r = ''GET'' \<and> prefix ''/redirect'' (path r) \<longrightarrow>
            handle_request r w = (None, w\<lparr>replied := replied w @ [Page redirect_page]\<rparr>)"
    by (simp add: handle_request_def do_GET_def)
  have d: "command r = ''GET'' \<and> \<not> prefix ''/redirect'' (path r) \<and> \<not> prefix ''/token?'' (path r) \<longrightarrow>
            handle_request r w = (None, w\<lparr>replied := replied w @ [SendError 404]\<rparr>)"
    by (simp add: handle_request_def do_GET_def)
  from listen [of w] a stop [of w] b c d show ?thesis by blast
qed

theorem capture_termination_witness:
  "authorize ''X'' ''a b'' [GET ''/redirect'', GET ''/favicon.ico''] start = None
   \<and> (\<exists>x w'. serve [GET ''/redirect'', GET ''/favicon.ico'',
                      GET ''/token?access_token=ABC123&token_type=Bearer'', GET ''/redirect''] start
               = Raised x w' \<and> length (replied w') = 3)"
proof -
  let ?pre = "[GET ''/redirect'', GET ''/favicon.ico'']"
  let ?r = "GET ''/token?access_token=ABC123&token_type=Bearer''"
  have h: "\<forall>q\<in>set ?pre. \<not> (command q = ''GET'' \<and> prefix ''/token?'' (path q))"
    by (simp add: GET_def)
  have t: "command ?r = ''GET'' \<and> prefix ''/token?'' (path ?r)"
    by (simp add: GET_def)
  have n: "length (replied start) + length ?pre + 1 = 3" by (simp add: start_def)
  note T = capture_termination [OF h, where r = ?r and w = start and later = "[GET ''/redirect'']"
      and client_id = "''X''" and scope = "''a b''"]
  from T have 1: "authorize ''X'' ''a b'' ?pre start = None" by blast
  from T t have "\<exists>x w'. serve (?pre @ ?r # [GET ''/redirect'']) start = Raised x w' \<and>
                     length (replied w') = length (replied start) + length ?pre + 1"
    by blast
  then have 2: "\<exists>x w'. serve [GET ''/redirect'', GET ''/favicon.ico'', ?r, GET ''/redirect''] start
                  = Raised x w' \<and> length (replied w') = 3"
    unfolding n append.simps .
  from 1 2 show ?thesis by (rule conjI)
qed

text \<open>
  C9. A GET of \<^verbatim>\<open>/token?error=access_denied\<close> is on the token route and has no
  \<^verbatim>\<open>access_token=\<close>: the search finds nothing, \<^verbatim>\<open>do_GET\<close> raises
  \<^verbatim>\<open>AttributeError\<close>, \<^verbatim>\<open>handle_error\<close> raises it again, and \<^verbatim>\<open>authorize\<close>, which
  catches \<^verbatim>\<open>_Authorization\<close> only, ends with that error: no session is made and the
  later request that does carry a token is never served.
\<close>

theorem missing_access_token_aborts:
  "prefix ''/token?'' ''/token?error=access_denied''
   \<and> re_search_access_token ''/token?error=access_denied'' = None
   \<and> fst (do_GET ''/token?error=access_denied'' w) = Some AttributeError
   \<and> handle_error AttributeError = Some AttributeError
   \<and> (\<exists>w'. authorize client_id scope
               [GET ''/redirect'', GET ''/token?error=access_denied'', GET ''/token?access_token=ABC123'']
               w = Some (Inl AttributeError, w'))"
proof -
  have p: "prefix ''/token?'' ''/token?error=access_denied''" by simp
  have n: "re_search_access_token ''/token?error=access_denied'' = None"
    by (simp add: re_search_access_token_def)
  have d: "fst (do_GET ''/token?error=access_denied'' w) = Some AttributeError"
    by (simp add: do_GET_def n)
  have h: "handle_error AttributeError = Some AttributeError"
    by (simp add: handle_error_def)
  have r: "handle_request (GET ''/redirect'') v = (None, v\<lparr>replied := replied v @ [Page redirect_page]\<rparr>)" for v
    by (simp add: handle_request_def do_GET_def GET_def)
  have t: "handle_request (GET ''/token?error=access_denied'') v =
             (Some AttributeError, v\<lparr>replied := replied v @ [Page thanks_page]\<rparr>)" for v
    by (simp add: handle_request_def do_GET_def GET_def n h)
  have a: "\<exists>w'. authorize client_id scope
               [GET ''/redirect'', GET ''/token?error=access_denied'', GET ''/token?access_token=ABC123'']
               w = Some (Inl AttributeError, w')"
    by (simp add: authorize_def Let_def r t)
  from p n d h a show ?thesis by blast
qed

text \<open>
  C8, as stated, fails: a captured request whose \<^verbatim>\<open>access_token\<close> is empty gives a
  session with the empty token.
\<close>

theorem empty_token_counterexample:
  "map_option fst (log_in None [GET ''/token?access_token=&token_type=Bearer''] start)
     = Some (Inr \<lparr>auth = []\<rparr>)"
proof -
  have n: "re_search_access_token ''/token?access_token=&token_type=Bearer'' = Some []"
    by (simp add: re_search_access_token_def)
  have t: "handle_request (GET ''/token?access_token=&token_type=Bearer'') v =
             (Some (Authorization []),
              v\<lparr>replied := replied v @ [Page thanks_page],
                infos := infos v @ [ReceivedAccessToken []]\<rparr>)" for v
    by (simp add: handle_request_def do_GET_def GET_def n handle_error_def)
  show ?thesis by (simp add: log_in_def authorize_def Let_def t)
qed

text \<open>
  C8, amended. A token supplied by the caller is used only when it is not empty, and
  then the session holds exactly it; an absent or empty one sends \<^verbatim>\<open>main\<close> through
  \<^verbatim>\<open>authorize\<close>. A session that \<^verbatim>\<open>authorize\<close> returns holds the text between the
  first \<^verbatim>\<open>access_token=\<close> of a served token request and the next \<^verbatim>\<open>&\<close> (or the end
  of the path), whatever its length; for
  \<^verbatim>\<open>/token?access_token=ABC123&token_type=Bearer\<close> that is \<^verbatim>\<open>ABC123\<close>.
\<close>

theorem session_token:
  "(t \<noteq> [] \<longrightarrow> log_in (Some t) incoming w = Some (Inr \<lparr>auth = t\<rparr>, w))
   \<and> log_in (Some []) incoming w = authorize main_client_id main_scope incoming w
   \<and> log_in None incoming w = authorize main_client_id main_scope incoming w
   \<and> (authorize client_id scope incoming w = Some (Inr s, w') \<longrightarrow>
        (\<exists>r\<in>set incoming. \<exists>rest. command r = ''GET'' \<and> prefix ''/token?'' (path r) \<and>
           search_after ''access_token='' (path r) = Some rest \<and>
           auth s = takeWhile (\<lambda>c. c \<noteq> CHR ''&'') rest))
   \<and> re_search_access_token ''/token?access_token=ABC123&token_type=Bearer'' = Some ''ABC123''"
proof -
  have 1: "t \<noteq> [] \<longrightarrow> log_in (Some t) incoming w = Some (Inr \<lparr>auth = t\<rparr>, w)"
    by (simp add: log_in_def)
  have 2: "log_in (Some []) incoming w = authorize main_client_id main_scope incoming w"
    by (simp add: log_in_def)
  have 3: "log_in None incoming w = authorize main_client_id main_scope incoming w"
    by (simp add: log_in_def)
  have 4: "\<exists>r\<in>set incoming. \<exists>rest. command r = ''GET'' \<and> prefix ''/token?'' (path r) \<and>
           search_after ''access_token='' (path r) = Some rest \<and>
           auth s = takeWhile (\<lambda>c. c \<noteq> CHR ''&'') rest"
    if a: "authorize client_id scope incoming w = Some (Inr s, w')"
  proof -
    let ?w1 = "w\<lparr>infos := infos w @ [LoggingIn (authorize_url client_id scope)],
                  opened := opened w @ [authorize_url client_id scope]\<rparr>"
    from a have "serve incoming ?w1 = Raised (Authorization (auth s)) w'"
      by (auto simp: authorize_def Let_def split: served.splits exc.splits)
    from serve_Raised [OF this] obtain r where r: "r \<in> set incoming" "command r = ''GET''"
      "prefix ''/token?'' (path r)"
      "Authorization (auth s) = (case re_search_access_token (path r) of
                  None \<Rightarrow> AttributeError | Some t \<Rightarrow> Authorization t)"
      by blast
    from r(4) have "re_search_access_token (path r) = Some (auth s)"
      by (simp split: option.splits)
    then obtain rest where "search_after ''access_token='' (path r) = Some rest"
      "auth s = takeWhile (\<lambda>c. c \<noteq> CHR ''&'') rest"
      by (auto simp: re_search_access_token_def)
    with r(1,2,3) show ?thesis by blast
  qed
  have 5: "re_search_access_token ''/token?access_token=ABC123&token_type=Bearer'' = Some ''ABC123''"
    by (simp add: re_search_access_token_def)
  from 1 2 3 4 5 show ?thesis by blast
qed

theorem session_token_witness:
  "log_in (Some ''BQDtoken'') [] start = Some (Inr \<lparr>auth = ''BQDtoken''\<rparr>, start)
   \<and> (\<exists>w'. authorize ''X'' ''a b'' [GET ''/token?access_token=ABC123&token_type=Bearer''] start
              = Some (Inr \<lparr>auth = ''ABC123''\<rparr>, w'))
   \<and> (\<exists>rest. search_after ''access_token='' ''/token?access_token=ABC123&token_type=Bearer''
                = Some rest \<and>
              ''ABC123'' = takeWhile (\<lambda>c. c \<noteq> CHR ''&'') rest)"
proof -
  let ?p = "''/token?access_token=ABC123&token_type=Bearer''"
  have ne: "''BQDtoken'' \<noteq> []" by simp
  have 1: "log_in (Some ''BQDtoken'') [] start = Some (Inr \<lparr>auth = ''BQDtoken''\<rparr>, start)"
    using session_token [where t = "''BQDtoken''" and incoming = "[]" and w = start,
      THEN conjunct1, rule_format, OF ne] .
  have n: "re_search_access_token ?p = Some ''ABC123''"
    by (simp add: re_search_access_token_def)
  have t: "handle_request (GET ?p) v =
             (Some (Authorization ''ABC123''),
              v\<lparr>replied := replied v @ [Page thanks_page],
                infos := infos v @ [ReceivedAccessToken ''ABC123'']\<rparr>)" for v
    by (simp add: handle_request_def do_GET_def GET_def n handle_error_def)
  have 2: "\<exists>w'. authorize ''X'' ''a b'' [GET ?p] start = Some (Inr \<lparr>auth = ''ABC123''\<rparr>, w')"
    by (simp add: authorize_def Let_def t)
  then obtain w' where a: "authorize ''X'' ''a b'' [GET ?p] start = Some (Inr \<lparr>auth = ''ABC123''\<rparr>, w')"
    by blast
  from session_token [where client_id = "''X''" and scope = "''a b''" and incoming = "[GET ?p]"
      and w = start and s = "\<lparr>auth = ''ABC123''\<rparr>" and w' = w',
      THEN conjunct2, THEN conjunct2, THEN conjunct2, THEN conjunct1, rule_format, OF a]
  have 3: "\<exists>rest. search_after ''access_token='' ?p = Some rest \<and>
              ''ABC123'' = takeWhile (\<lambda>c. c \<noteq> CHR ''&'') rest"
    by (simp add: GET_def)
  from 1 2 3 show ?thesis by (intro conjI)
qed

subsection \<open>The pagination loop\<close>

lemma is_page_items: "is_page p \<Longrightarrow> subscript p ''items'' = Inr (JArr (items_of p))"
  by (auto simp: is_page_def items_of_def split: sum.splits json.splits)

lemma is_page_total: "is_page p \<Longrightarrow> \<exists>n. subscript p ''total'' = Inr (JInt n)"
  by (auto simp: is_page_def split: sum.splits json.splits)

lemma is_page_next:
  "is_page p \<Longrightarrow> \<not> next_is_null p \<Longrightarrow> \<exists>u. u \<noteq> [] \<and> subscript p ''next'' = Inr (JStr u)"
  by (auto simp: is_page_def next_is_null_def split: sum.splits json.splits)

lemma report_progress_frame:
  "report_progress e response items t0 w = (x, w') \<Longrightarrow> store w' = store w \<and> sent w' = sent w"
  by (auto simp: report_progress_def Let_def split: if_splits sum.splits)

lemma report_progress_page:
  assumes "is_page p"
  shows "\<exists>t1 w'. report_progress e p (JArr acc) t0 w = (Inr t1, w') \<and>
           store w' = store w \<and> sent w' = sent w"
proof -
  from is_page_total [OF assms] obtain n where "subscript p ''total'' = Inr (JInt n)" by blast
  then show ?thesis by (simp add: report_progress_def Let_def)
qed


lemma get_first_reply:
  assumes "transport e (sent w) (get_request self (construct_url url (store w a))) = Replies j"
  shows "get e self url a 3 w =
           (Inr j, w\<lparr>sent := sent w @ [get_request self (construct_url url (store w a))]\<rparr>)"
proof -
  show ?thesis using assms by (simp add: get_def numeral_3_eq_3)
qed


lemma list_loop_last:
  assumes "next_is_null p"
  shows "list_loop e self p items t0 w = Some (Inr items, w)"
  using assms by (subst list_loop.simps) (simp add: loop_body_def next_is_null_def)

text \<open>
  Outside the documented shape: a response that has no \<^verbatim>\<open>next\<close> key raises
  \<^verbatim>\<open>KeyError\<close>, and any falsy \<^verbatim>\<open>next\<close>, such as the empty string, ends the loop as
  null does.
\<close>

lemma list_loop_outside_shape:
  "list_loop e self (JObj [(''items'', JArr xs)]) items t0 w = Some (Inl (KeyError ''next''), w)"
  "list_loop e self (JObj [(''items'', JArr xs), (''next'', JStr [])]) items t0 w = Some (Inr items, w)"
  by (subst list_loop.simps, simp add: loop_body_def)+

lemma list_loop_step:
  assumes p: "is_page p" "\<not> next_is_null p" and q: "is_page q"
    and t: "\<forall>h r. length h = length (sent w) \<longrightarrow> transport e h r = Replies q"
  shows "\<exists>t1 w'. list_loop e self p (JArr acc) t0 w =
                   list_loop e self q (JArr (acc @ items_of q)) t1 w' \<and>
                 length (sent w') = length (sent w) + 1 \<and> store w' = store w"
proof -
  from is_page_next [OF p] obtain u where u: "u \<noteq> []" "subscript p ''next'' = Inr (JStr u)"
    by blast
  from report_progress_page [OF p(1), of e acc t0 w] obtain t1 w1 where
    r: "report_progress e p (JArr acc) t0 w = (Inr t1, w1)" "store w1 = store w" "sent w1 = sent w"
    by blast
  let ?req = "get_request self (construct_url u (store w1 get_params_default))"
  let ?w2 = "w1\<lparr>sent := sent w1 @ [?req]\<rparr>"
  have "transport e (sent w1) ?req = Replies q" using t r(3) by simp
  from get_first_reply [OF this]
  have g: "get e self u get_params_default 3 w1 = (Inr q, ?w2)" .
  have n: "next_page e self (JStr u) (JArr acc) w1 = (Inr (q, JArr (acc @ items_of q)), ?w2)"
    by (simp add: next_page_def g is_page_items [OF q])
  have b: "loop_body e self p (JArr acc) t0 w = Again q (JArr (acc @ items_of q)) t1 ?w2"
    using u by (simp add: loop_body_def r(1) n)
  have "list_loop e self p (JArr acc) t0 w = list_loop e self q (JArr (acc @ items_of q)) t1 ?w2"
    by (subst list_loop.simps) (simp add: b)
  moreover have "length (sent ?w2) = length (sent w) + 1" "store ?w2 = store w"
    using r by simp_all
  ultimately show ?thesis by blast
qed


lemma list_loop_advance:
  assumes "\<forall>q\<in>set (p # rest). is_page q"
    and "\<forall>q\<in>set (butlast (p # rest)). \<not> next_is_null q"
    and "\<forall>i<length rest. \<forall>h r. length h = length (sent w) + i \<longrightarrow>
           transport e h r = Replies (rest ! i)"
  shows "\<exists>t1 w'. list_loop e self p (JArr acc) t0 w =
                   list_loop e self (last (p # rest)) (JArr (acc @ concat (map items_of rest))) t1 w' \<and>
                 length (sent w') = length (sent w) + length rest \<and> store w' = store w"
  using assms
proof (induction rest arbitrary: p acc t0 w)
  case Nil
  show ?case by (intro exI [of _ t0] exI [of _ w]) simp
next
  case (Cons q rest)
  have p: "is_page p" "\<not> next_is_null p" and q: "is_page q"
    using Cons.prems(1,2) by simp_all
  have t: "\<forall>h r. length h = length (sent w) \<longrightarrow> transport e h r = Replies q"
    using Cons.prems(3) by fastforce
  from list_loop_step [OF p q t, of self acc t0] obtain t1 w1 where
    s: "list_loop e self p (JArr acc) t0 w = list_loop e self q (JArr (acc @ items_of q)) t1 w1"
       "length (sent w1) = length (sent w) + 1" "store w1 = store w" by blast
  have a: "\<forall>x\<in>set (q # rest). is_page x" using Cons.prems(1) by simp
  have b: "\<forall>x\<in>set (butlast (q # rest)). \<not> next_is_null x" using Cons.prems(2) by simp
  have c: "\<forall>i<length rest. \<forall>h r. length h = length (sent w1) + i \<longrightarrow>
             transport e h r = Replies (rest ! i)"
  proof (intro allI impI)
    fix i and h :: "request list" and r :: request
    assume i: "i < length rest" and h: "length h = length (sent w1) + i"
    from i have "Suc i < length (q # rest)" by simp
    moreover from h s(2) have "length h = length (sent w) + Suc i" by simp
    ultimately have "transport e h r = Replies ((q # rest) ! Suc i)"
      using Cons.prems(3) by blast
    then show "transport e h r = Replies (rest ! i)" by simp
  qed
  from Cons.IH [OF a b c, of "acc @ items_of q" t1] obtain t2 w2 where
    i: "list_loop e self q (JArr ((acc @ items_of q))) t1 w1 =
          list_loop e self (last (q # rest))
            (JArr ((acc @ items_of q) @ concat (map items_of rest))) t2 w2"
       "length (sent w2) = length (sent w1) + length rest" "store w2 = store w1" by blast
  have "list_loop e self p (JArr acc) t0 w =
          list_loop e self (last (p # q # rest))
            (JArr (acc @ concat (map items_of (q # rest)))) t2 w2"
    using s(1) i(1) by simp
  moreover have "length (sent w2) = length (sent w) + length (q # rest)" "store w2 = store w"
    using s i by simp_all
  ultimately show ?case by blast
qed

lemma spotify_list_start:
  assumes "\<forall>q\<in>set (p # rest). is_page q"
    and "\<forall>q\<in>set (butlast (p # rest)). \<not> next_is_null q"
    and t: "\<forall>i<length (p # rest). \<forall>h r. length h = length (sent w) + i \<longrightarrow>
           transport e h r = Replies ((p # rest) ! i)"
  shows "\<exists>t1 w'. spotify_list e self url a w =
                   list_loop e self (last (p # rest)) (JArr (concat (map items_of (p # rest)))) t1 w' \<and>
                 length (sent w') = length (sent w) + length (p # rest) \<and> store w' = store w"
proof -
  let ?w0 = "w\<lparr>ticks := Suc (ticks w)\<rparr>"
  let ?req = "get_request self (construct_url url (store ?w0 a))"
  let ?w1 = "?w0\<lparr>sent := sent ?w0 @ [?req]\<rparr>"
  have "transport e (sent ?w0) ?req = Replies p" using t by fastforce
  from get_first_reply [OF this] have g: "get e self url a 3 ?w0 = (Inr p, ?w1)" .
  have p: "is_page p" using assms(1) by simp
  have s: "spotify_list e self url a w = list_loop e self p (JArr (items_of p)) (clock e (ticks w)) ?w1"
    by (simp add: spotify_list_def Let_def g is_page_items [OF p])
  have c: "\<forall>i<length rest. \<forall>h r. length h = length (sent ?w1) + i \<longrightarrow>
             transport e h r = Replies (rest ! i)"
  proof (intro allI impI)
    fix i and h :: "request list" and r :: request
    assume i: "i < length rest" and h: "length h = length (sent ?w1) + i"
    from i have "Suc i < length (p # rest)" by simp
    moreover from h have "length h = length (sent w) + Suc i" by simp
    ultimately have "transport e h r = Replies ((p # rest) ! Suc i)"
      using t by blast
    then show "transport e h r = Replies (rest ! i)" by simp
  qed
  from list_loop_advance [OF assms(1,2) c, of self "items_of p" "clock e (ticks w)"]
  obtain t1 w' where
    a: "list_loop e self p (JArr (items_of p)) (clock e (ticks w)) ?w1 =
          list_loop e self (last (p # rest)) (JArr (items_of p @ concat (map items_of rest))) t1 w'"
       "length (sent w') = length (sent ?w1) + length rest" "store w' = store ?w1" by blast
  have "spotify_list e self url a w =
          list_loop e self (last (p # rest)) (JArr (concat (map items_of (p # rest)))) t1 w'"
    using s a(1) by simp
  moreover have "length (sent w') = length (sent w) + length (p # rest)" "store w' = store w"
    using a(2,3) by simp_all
  ultimately show ?thesis by blast
qed

lemma spotify_list_pages:
  assumes "pages \<noteq> []"
    and "\<forall>p\<in>set pages. is_page p"
    and "\<forall>p\<in>set (butlast pages). \<not> next_is_null p"
    and "next_is_null (last pages)"
    and "\<forall>i<length pages. \<forall>h r. length h = length (sent w) + i \<longrightarrow>
           transport e h r = Replies (pages ! i)"
  shows "\<exists>w'. spotify_list e self url a w = Some (Inr (JArr (concat (map items_of pages))), w') \<and>
              length (sent w') = length (sent w) + length pages \<and> store w' = store w"
proof -
  from assms(1) obtain p rest where pr: "pages = p # rest" by (cases pages) auto
  from spotify_list_start [of p rest w e self url a] assms(2,3,5) pr obtain t1 w' where
    a: "spotify_list e self url a w =
          list_loop e self (last pages) (JArr (concat (map items_of pages))) t1 w'"
       "length (sent w') = length (sent w) + length pages" "store w' = store w" by auto
  from a(1) list_loop_last [OF assms(4)]
  have "spotify_list e self url a w = Some (Inr (JArr (concat (map items_of pages))), w')" by simp
  with a(2,3) show ?thesis by blast
qed


subsection \<open>The parameter store\<close>

lemma get_frame: "get e self url a tries w = (x, w') \<Longrightarrow> store w' = store w"
  using attempts_store [of e "get_request self (construct_url url (store w a))" "nat tries" w]
  by (simp add: get_def)

lemma post_frame: "post e self url a data tries w = (x, w') \<Longrightarrow> store w' = store w"
  using attempts_store [of e "post_request self (construct_url url (store w a)) data" "nat tries" w]
  by (simp add: post_def)

lemma next_page_frame: "next_page e self nxt items w = (x, w') \<Longrightarrow> store w' = store w"
  by (auto simp: next_page_def split: json.splits prod.splits sum.splits dest: get_frame)

lemma loop_body_frame:
  "loop_body e self response items t0 w = Leave (r, w') \<Longrightarrow> store w' = store w"
  "loop_body e self response items t0 w = Again response' items' t1 w' \<Longrightarrow> store w' = store w"
  by (auto simp: loop_body_def split: sum.splits if_splits prod.splits
      dest!: report_progress_frame next_page_frame)

lemma list_loop_store:
  assumes a: "list_loop e self response items t0 w = Some y"
  shows "store (snd y) = store w"
proof (rule list_loop.raw_induct
    [where P = "\<lambda>e self response items t0 w y. store (snd y) = store w", OF _ a])
  fix f :: "env \<Rightarrow> spotify_api \<Rightarrow> json \<Rightarrow> json \<Rightarrow> rat \<Rightarrow> world \<Rightarrow> ((exc + json) \<times> world) option"
  fix e self response items t0 w y
  assume IH: "\<And>e self response items t0 w y.
               f e self response items t0 w = Some y \<Longrightarrow> store (snd y) = store w"
    and b: "(case loop_body e self response items t0 w of
               Leave r \<Rightarrow> Some r
             | Again response' items' t1 w' \<Rightarrow> f e self response' items' t1 w') = Some y"
  show "store (snd y) = store w"
  proof (cases "loop_body e self response items t0 w")
    case (Leave r)
    with b have "y = r" by simp
    with Leave loop_body_frame(1) [of e self response items t0 w "fst r" "snd r"]
    show ?thesis by simp
  next
    case (Again response' items' t1 w')
    with b have "f e self response' items' t1 w' = Some y" by simp
    from IH [OF this] loop_body_frame(2) [OF Again] show ?thesis by simp
  qed
qed

lemma spotify_list_store:
  assumes "spotify_list e self url a w = Some y"
  shows "store (snd y) = store w"
proof -
  let ?w0 = "w\<lparr>ticks := Suc (ticks w)\<rparr>"
  obtain x w1 where g: "get e self url a 3 ?w0 = (x, w1)" by (cases "get e self url a 3 ?w0")
  have s: "store w1 = store w"
    using get_frame [OF g] by simp
  show ?thesis
  proof (cases x)
    case (Inl err)
    with assms g s show ?thesis by (auto simp: spotify_list_def Let_def)
  next
    case (Inr response)
    show ?thesis
    proof (cases "subscript response ''items''")
      case (Inl err)
      with assms g s Inr show ?thesis by (auto simp: spotify_list_def Let_def)
    next
      case inr: (Inr items)
      with assms g Inr have "list_loop e self response items (clock e (ticks w)) w1 = Some y"
        by (simp add: spotify_list_def Let_def)
      from list_loop_store [OF this] s show ?thesis by simp
    qed
  qed
qed

subsection \<open>Pagination\<close>

lemma two_pages_shape:
  "is_page page_one" "is_page page_two" "\<not> next_is_null page_one" "next_is_null page_two"
  "items_of page_one = [JStr ''track1'', JStr ''track2'']" "items_of page_two = [JStr ''track3'']"
  by (simp_all add: is_page_def next_is_null_def items_of_def page_one_def page_two_def)

lemma two_pages_transport:
  "\<forall>i<length [page_one, page_two]. \<forall>h r. length h = length (sent start) + i \<longrightarrow>
     transport two_pages h r = Replies ([page_one, page_two] ! i)"
  by (auto simp: two_pages_def start_def less_Suc_eq)


text \<open>
  C1, as stated, fails. A last page on which \<^verbatim>\<open>next\<close> is absent makes
  \<^verbatim>\<open>response['next']\<close> raise \<^verbatim>\<open>KeyError\<close>: \<^verbatim>\<open>list\<close> returns no items. And of two
  pages holding three items, the last with \<^verbatim>\<open>next\<close> null, \<^verbatim>\<open>list\<close> returns only the
  two items of the first when its \<^verbatim>\<open>next\<close> is the empty string, which is neither absent
  nor null.
\<close>

theorem pagination_counterexample:
  "map_option fst
     (spotify_list no_next_key \<lparr>auth = ''t''\<rparr> ''me/tracks'' list_params_default start)
     = Some (Inl (KeyError ''next''))
   \<and> map_option fst
     (spotify_list empty_next \<lparr>auth = ''t''\<rparr> ''me/tracks'' list_params_default start)
     = Some (Inr (JArr [JStr ''track1'', JStr ''track2'']))
   \<and> next_is_null page_two
   \<and> length (items_of page_empty_next) + length (items_of page_two) = 3"
proof -
  let ?w0 = "start\<lparr>ticks := Suc (ticks start)\<rparr>"
  let ?req = "get_request \<lparr>auth = ''t''\<rparr> (construct_url ''me/tracks'' (store ?w0 list_params_default))"
  let ?w1 = "?w0\<lparr>sent := sent ?w0 @ [?req]\<rparr>"
  have "transport no_next_key (sent ?w0) ?req = Replies page_without_next"
    by (simp add: no_next_key_def)
  from get_first_reply [OF this]
  have g1: "get no_next_key \<lparr>auth = ''t''\<rparr> ''me/tracks'' list_params_default 3 ?w0 =
              (Inr page_without_next, ?w1)" .
  have l1: "list_loop no_next_key \<lparr>auth = ''t''\<rparr> page_without_next
              (JArr [JStr ''track1'']) (clock no_next_key (ticks start)) ?w1 =
            Some (Inl (KeyError ''next''), ?w1)"
    by (subst list_loop.simps) (simp add: loop_body_def page_without_next_def)
  have s1: "subscript page_without_next ''items'' = Inr (JArr [JStr ''track1''])"
    by (simp add: page_without_next_def)
  have 1: "map_option fst
     (spotify_list no_next_key \<lparr>auth = ''t''\<rparr> ''me/tracks'' list_params_default start)
     = Some (Inl (KeyError ''next''))"
    by (simp only: spotify_list_def Let_def g1 s1 l1 prod.case sum.case option.map fst_conv)
  have "transport empty_next (sent ?w0) ?req = Replies page_empty_next"
    by (simp add: empty_next_def start_def)
  from get_first_reply [OF this]
  have g2: "get empty_next \<lparr>auth = ''t''\<rparr> ''me/tracks'' list_params_default 3 ?w0 =
              (Inr page_empty_next, ?w1)" .
  have l2: "list_loop empty_next \<lparr>auth = ''t''\<rparr> page_empty_next
              (JArr [JStr ''track1'', JStr ''track2'']) (clock empty_next (ticks start)) ?w1 =
            Some (Inr (JArr [JStr ''track1'', JStr ''track2'']), ?w1)"
    by (subst list_loop.simps) (simp add: loop_body_def page_empty_next_def)
  have s2: "subscript page_empty_next ''items'' = Inr (JArr [JStr ''track1'', JStr ''track2''])"
    by (simp add: page_empty_next_def)
  have 2: "map_option fst
     (spotify_list empty_next \<lparr>auth = ''t''\<rparr> ''me/tracks'' list_params_default start)
     = Some (Inr (JArr [JStr ''track1'', JStr ''track2'']))"
    by (simp only: spotify_list_def Let_def g2 s2 l2 prod.case sum.case option.map fst_conv)
  have 3: "next_is_null page_two" by (simp add: next_is_null_def page_two_def)
  have 4: "length (items_of page_empty_next) + length (items_of page_two) = 3"
    by (simp add: items_of_def page_empty_next_def page_two_def)
  from 1 2 3 4 show ?thesis by (intro conjI)
qed

text \<open>
  C1, amended. When the transport answers the first k requests of \<^verbatim>\<open>list\<close> with k pages, each
  holding the keys \<^verbatim>\<open>items\<close> (an array), \<^verbatim>\<open>next\<close> and \<^verbatim>\<open>total\<close> (an integer), of
  which the last has \<^verbatim>\<open>next\<close> present and null and the others have a non-empty URL
  there, \<^verbatim>\<open>list\<close> returns the items of all pages, concatenated in page order: as
  many items as the pages hold together, none twice, none missing. It makes exactly k
  requests: it goes on while a page names a next page and stops at the page whose
  \<^verbatim>\<open>next\<close> is null.
\<close>

theorem pagination_complete:
  assumes "pages \<noteq> []"
    and "\<forall>p\<in>set pages. is_page p"
    and "\<forall>p\<in>set (butlast pages). \<not> next_is_null p"
    and "next_is_null (last pages)"
    and "\<forall>i<length pages. \<forall>h r. length h = length (sent w) + i \<longrightarrow>
           transport e h r = Replies (pages ! i)"
  shows "\<exists>w'. spotify_list e self url a w = Some (Inr (JArr (concat (map items_of pages))), w') \<and>
              length (sent w') = length (sent w) + length pages \<and>
              length (concat (map items_of pages)) = (\<Sum>p\<leftarrow>pages. length (items_of p))"
proof -
  from spotify_list_pages [OF assms, of self url a] obtain w' where
    "spotify_list e self url a w = Some (Inr (JArr (concat (map items_of pages))), w')"
    "length (sent w') = length (sent w) + length pages" by blast
  moreover have "length (concat (map items_of pages)) = (\<Sum>p\<leftarrow>pages. length (items_of p))"
    by (simp add: length_concat comp_def)
  ultimately show ?thesis by blast
qed

theorem pagination_complete_witness:
  "\<exists>w'. spotify_list two_pages \<lparr>auth = ''t''\<rparr> ''me/tracks'' list_params_default start =
           Some (Inr (JArr [JStr ''track1'', JStr ''track2'', JStr ''track3'']), w') \<and>
         length (sent w') = 2"
proof -
  have 1: "[page_one, page_two] \<noteq> []" by simp
  have 2: "\<forall>p\<in>set [page_one, page_two]. is_page p" by (simp add: two_pages_shape)
  have 3: "\<forall>p\<in>set (butlast [page_one, page_two]). \<not> next_is_null p"
    by (simp add: two_pages_shape)
  have 4: "next_is_null (last [page_one, page_two])" by (simp add: two_pages_shape)
  from pagination_complete [OF 1 2 3 4 two_pages_transport,
      of "\<lparr>auth = ''t''\<rparr>" "''me/tracks''" list_params_default]
  show ?thesis by (simp add: two_pages_shape start_def numeral_2_eq_2)
qed



text \<open>
  C10. No call of \<^verbatim>\<open>get\<close>, \<^verbatim>\<open>post\<close> or \<^verbatim>\<open>list\<close> that returns or raises leaves any
  parameter dict changed, whichever dict it was given: the one supplied, and the shared
  defaults, hold after the call what they held before.
\<close>

theorem params_unchanged:
  "store (snd (get e self url a tries w)) = store w
   \<and> store (snd (post e self url a data tries w)) = store w
   \<and> (spotify_list e self url a w = Some (res, w') \<longrightarrow> store w' = store w)"
proof -
  have "store (snd (get e self url a tries w)) = store w"
    by (cases "get e self url a tries w") (simp add: get_frame)
  moreover have "store (snd (post e self url a data tries w)) = store w"
    by (cases "post e self url a data tries w") (simp add: post_frame)
  moreover have "spotify_list e self url a w = Some (res, w') \<longrightarrow> store w' = store w"
    using spotify_list_store [of e self url a w "(res, w')"] by simp
  ultimately show ?thesis by blast
qed

theorem params_unchanged_witness:
  "\<exists>w'. spotify_list two_pages \<lparr>auth = ''t''\<rparr> ''me/tracks'' list_params_default start =
           Some (Inr (JArr [JStr ''track1'', JStr ''track2'', JStr ''track3'']), w') \<and>
         store w' list_params_default = [] \<and> store w' get_params_default = []"
proof -
  have 1: "[page_one, page_two] \<noteq> []" by simp
  have 2: "\<forall>p\<in>set [page_one, page_two]. is_page p" by (simp add: two_pages_shape)
  have 3: "\<forall>p\<in>set (butlast [page_one, page_two]). \<not> next_is_null p"
    by (simp add: two_pages_shape)
  have 4: "next_is_null (last [page_one, page_two])" by (simp add: two_pages_shape)
  from spotify_list_pages [OF 1 2 3 4 two_pages_transport,
      of "\<lparr>auth = ''t''\<rparr>" "''me/tracks''" list_params_default]
  obtain w' where r: "spotify_list two_pages \<lparr>auth = ''t''\<rparr> ''me/tracks'' list_params_default start =
      Some (Inr (JArr [JStr ''track1'', JStr ''track2'', JStr ''track3'']), w')"
    by (auto simp: two_pages_shape)
  from params_unchanged [where e = two_pages and self = "\<lparr>auth = ''t''\<rparr>" and url = "''me/tracks''"
      and a = list_params_default and w = start and w' = w', THEN conjunct2, THEN conjunct2,
      rule_format, OF r]
  have "store w' = store start" .
  then have "store w' list_params_default = [] \<and> store w' get_params_default = []"
    by (simp add: start_def)
  with r show ?thesis by blast
qed

end
